theory Spec2Isabelle
  imports Complex_Main
begin

section \<open>The validation framework of validation\_testing.py\<close>

text \<open>
  The composable validators of \<^verbatim>\<open>src/api_testing/Validation_Testing/validation_testing.py\<close>.
  A \<^verbatim>\<open>ValidationError\<close> is a mutable Python object: the composite validators
  assign to \<^verbatim>\<open>error.field\<close> while they collect the errors of their children. The
  errors therefore live in an explicit store (a list addressed by position) that every
  \<^verbatim>\<open>validate\<close> takes and returns, and a \<^verbatim>\<open>ValidationResult\<close> holds
  addresses. An exception that leaves \<^verbatim>\<open>validate\<close> is the \<open>Inl\<close> branch of the result.
\<close>

subsection \<open>Python values\<close>

datatype date = Date (year: int) (month: int) (day: int)

text \<open>
  The values a validator can be handed. \<open>VBool\<close> is a subclass instance of int and
  \<open>VDateTime\<close> (a date and the microsecond of the day) a subclass instance of date, as in
  Python. A float is modelled by the number it denotes (NaN and the infinities are left out).
  A dict is its items in insertion order. \<open>VOther c\<close> is an object of any other class,
  named \<open>c\<close>, unrelated to the classes above.
\<close>

datatype pyval =
    VNone
  | VBool bool
  | VInt int
  | VFloat real
  | VStr string
  | VDate date
  | VDateTime date int
  | VList "pyval list"
  | VDict "(pyval \<times> pyval) list"
  | VOther string

text \<open>
  The exceptions that can leave a validator, by class: \<^verbatim>\<open>TypeError\<close>,
  \<^verbatim>\<open>IndexError\<close> and \<^verbatim>\<open>re.error\<close>. Their messages are not modelled.
\<close>

datatype exn = TypeError | IndexError | ReError

text \<open>
  The builtins of the interpreter and its standard library that the validators call and
  that this repository does not define: \<^verbatim>\<open>str(x)\<close> (also what an f-string renders),
  \<^verbatim>\<open>datetime.datetime.strptime(s, fmt).date()\<close> (\<open>Inr None\<close> when it raises the
  ValueError that the caller catches, \<open>Inl e\<close> when it raises anything else, as
  \<^verbatim>\<open>re.error\<close> on a format that repeats a directive),
  \<^verbatim>\<open>re.compile(p)\<close> (whether it succeeds), \<^verbatim>\<open>re.compile(p).match(s)\<close> as a
  truth value, and the character classes of \<^verbatim>\<open>str\<close>. They are a parameter of the model.
\<close>

record pylib =
  py_str :: "pyval \<Rightarrow> string"
  strptime :: "string \<Rightarrow> string \<Rightarrow> exn + date option"
  re_compiles :: "string \<Rightarrow> bool"
  re_match :: "string \<Rightarrow> string \<Rightarrow> bool"
  isupper :: "char \<Rightarrow> bool"
  islower :: "char \<Rightarrow> bool"
  isdigit :: "char \<Rightarrow> bool"
  isalnum :: "char \<Rightarrow> bool"
  isspace :: "char \<Rightarrow> bool"

fun type_name :: "pyval \<Rightarrow> string" where
  "type_name VNone = ''NoneType''"
| "type_name (VBool b) = ''bool''"
| "type_name (VInt i) = ''int''"
| "type_name (VFloat r) = ''float''"
| "type_name (VStr s) = ''str''"
| "type_name (VDate d) = ''date''"
| "type_name (VDateTime d t) = ''datetime''"
| "type_name (VList xs) = ''list''"
| "type_name (VDict kvs) = ''dict''"
| "type_name (VOther c) = c"

text \<open>\<^verbatim>\<open>isinstance(value, int)\<close> and \<^verbatim>\<open>isinstance(value, (int, float))\<close>.\<close>

fun isinstance_int :: "pyval \<Rightarrow> bool" where
  "isinstance_int (VInt i) = True"
| "isinstance_int (VBool b) = True"
| "isinstance_int v = False"

fun isinstance_number :: "pyval \<Rightarrow> bool" where
  "isinstance_number (VInt i) = True"
| "isinstance_number (VBool b) = True"
| "isinstance_number (VFloat r) = True"
| "isinstance_number v = False"

text \<open>The number a numeric value compares as (\<open>True\<close> is 1, \<open>False\<close> is 0).\<close>

fun num_value :: "pyval \<Rightarrow> real" where
  "num_value (VInt i) = real_of_int i"
| "num_value (VBool b) = (if b then 1 else 0)"
| "num_value (VFloat r) = r"
| "num_value v = 0"

text \<open>The order of \<^verbatim>\<open>datetime.date\<close>: by year, then month, then day.\<close>

definition date_less :: "date \<Rightarrow> date \<Rightarrow> bool" where
  "date_less a b \<longleftrightarrow>
     year a < year b \<or> (year a = year b \<and> (month a < month b \<or> (month a = month b \<and> day a < day b)))"

text \<open>\<^verbatim>\<open>sep.join(xs)\<close> on strings, and on arbitrary items, where a non-string item raises.\<close>

fun join :: "string \<Rightarrow> string list \<Rightarrow> string" where
  "join sep [] = []"
| "join sep [x] = x"
| "join sep (x # y # ys) = x @ sep @ join sep (y # ys)"

fun strs_of :: "pyval list \<Rightarrow> exn + string list" where
  "strs_of [] = Inr []"
| "strs_of (VStr s # vs) = (case strs_of vs of Inl e \<Rightarrow> Inl e | Inr ss \<Rightarrow> Inr (s # ss))"
| "strs_of (v # vs) = Inl TypeError"

definition join_vals :: "string \<Rightarrow> pyval list \<Rightarrow> exn + string" where
  "join_vals sep vs = (case strs_of vs of Inl e \<Rightarrow> Inl e | Inr ss \<Rightarrow> Inr (join sep ss))"

text \<open>
  The string operations the validators use: \<^verbatim>\<open>s.startswith(p)\<close>, \<^verbatim>\<open>s.endswith(p)\<close>,
  \<^verbatim>\<open>sub in s\<close>, \<^verbatim>\<open>s.split(c)\<close> for a one-character separator and
  \<^verbatim>\<open>s.split(sep, 1)\<close> for a non-empty separator.
\<close>

definition startswith :: "string \<Rightarrow> string \<Rightarrow> bool" where
  "startswith s p \<longleftrightarrow> take (length p) s = p"

definition endswith :: "string \<Rightarrow> string \<Rightarrow> bool" where
  "endswith s p \<longleftrightarrow> length p \<le> length s \<and> drop (length s - length p) s = p"

fun contains :: "string \<Rightarrow> string \<Rightarrow> bool" where
  "contains [] sub = (sub = [])"
| "contains (c # cs) sub = (startswith (c # cs) sub \<or> contains cs sub)"

fun str_split :: "string \<Rightarrow> char \<Rightarrow> string list" where
  "str_split [] sep = [[]]"
| "str_split (c # cs) sep =
     (if c = sep then [] # str_split cs sep
      else (case str_split cs sep of [] \<Rightarrow> [] | a # rest \<Rightarrow> (c # a) # rest))"

fun str_split1 :: "string \<Rightarrow> string \<Rightarrow> string list" where
  "str_split1 [] sep = [[]]"
| "str_split1 (c # cs) sep =
     (if startswith (c # cs) sep then [[], drop (length sep) (c # cs)]
      else (case str_split1 cs sep of [] \<Rightarrow> [] | a # rest \<Rightarrow> (c # a) # rest))"

subsection \<open>ValidationError and ValidationResult\<close>

record ValidationError =
  message :: string
  field :: "string option"
  details :: "(string \<times> string list) list"

text \<open>A result refers to its errors by their addresses in the store.\<close>

record ValidationResult =
  is_valid :: bool
  errors :: "nat list"

type_synonym heap = "ValidationError list"
type_synonym outcome = "exn + (ValidationResult \<times> heap)"
type_synonym vfun = "pyval \<Rightarrow> heap \<Rightarrow> outcome"

text \<open>\<^verbatim>\<open>ValidationError(message, field, details)\<close>: \<^verbatim>\<open>details or {}\<close>.\<close>

definition new_error :: "string \<Rightarrow> string option \<Rightarrow> (string \<times> string list) list option \<Rightarrow> ValidationError" where
  "new_error msg fld det =
     \<lparr>message = msg, field = fld, details = (case det of None \<Rightarrow> [] | Some d \<Rightarrow> d)\<rparr>"

text \<open>\<^verbatim>\<open>ValidationResult(is_valid)\<close>: \<^verbatim>\<open>errors or []\<close> is a fresh empty list.\<close>

definition new_result :: "bool \<Rightarrow> ValidationResult" where
  "new_result b = \<lparr>is_valid = b, errors = []\<rparr>"

definition add_error :: "ValidationResult \<Rightarrow> nat \<Rightarrow> ValidationResult" where
  "add_error r a = r\<lparr>is_valid := False, errors := errors r @ [a]\<rparr>"

text \<open>Constructing an error object puts it at the next free address.\<close>

definition alloc :: "ValidationError \<Rightarrow> heap \<Rightarrow> nat \<times> heap" where
  "alloc e h = (length h, h @ [e])"

text \<open>\<^verbatim>\<open>result.add_error(ValidationError(msg))\<close>\<close>

definition add_new :: "ValidationError \<Rightarrow> ValidationResult \<times> heap \<Rightarrow> ValidationResult \<times> heap" where
  "add_new e s = (case s of (r, h) \<Rightarrow> (case alloc e h of (a, h') \<Rightarrow> (add_error r a, h')))"

text \<open>\<^verbatim>\<open>if cond: result.add_error(ValidationError(msg))\<close>\<close>

definition check :: "bool \<Rightarrow> string \<Rightarrow> ValidationResult \<times> heap \<Rightarrow> ValidationResult \<times> heap" where
  "check cond msg s = (if cond then add_new (new_error msg None None) s else s)"

text \<open>The error values a result refers to, read from a store.\<close>

definition read :: "heap \<Rightarrow> ValidationResult \<Rightarrow> ValidationError list" where
  "read h r = map (\<lambda>a. h ! a) (errors r)"

text \<open>\<^verbatim>\<open>error.field = v\<close>\<close>

definition set_field :: "nat \<Rightarrow> string option \<Rightarrow> heap \<Rightarrow> heap" where
  "set_field a v h = h[a := (h ! a)\<lparr>field := v\<rparr>]"

text \<open>\<^verbatim>\<open>p + (f".{error.field}" if error.field else "")\<close>: an empty field counts as absent.\<close>

definition prefix_field :: "string \<Rightarrow> string option \<Rightarrow> string" where
  "prefix_field p f = p @ (case f of None \<Rightarrow> [] | Some s \<Rightarrow> if s = [] then [] else ''.'' @ s)"

text \<open>
  The loop of every composite validator over a child's errors:
  \<^verbatim>\<open>for error in child_result.errors: error.field = p + ...; result.add_error(error)\<close>
\<close>

fun attach :: "string \<Rightarrow> nat list \<Rightarrow> ValidationResult \<times> heap \<Rightarrow> ValidationResult \<times> heap" where
  "attach p [] s = s"
| "attach p (a # as) (r, h) =
     attach p as (add_error r a, set_field a (Some (prefix_field p (field (h ! a)))) h)"

definition collect :: "string \<Rightarrow> ValidationResult \<Rightarrow> ValidationResult \<times> heap \<Rightarrow> ValidationResult \<times> heap" where
  "collect p child s = (if \<not> is_valid child then attach p (errors child) s else s)"

subsection \<open>Primitive validators\<close>

text \<open>A bound of a NumberValidator: an int or a float.\<close>

datatype number = NInt int | NFloat real

fun num_val :: "number \<Rightarrow> pyval" where
  "num_val (NInt i) = VInt i"
| "num_val (NFloat r) = VFloat r"

text \<open>
  \<^verbatim>\<open>StringValidator.validate\<close>. The compiled pattern is given by its source text; an
  empty or absent \<^verbatim>\<open>allowed_values\<close> is falsy and switches the membership check off.
\<close>

definition StringValidator_validate ::
  "pylib \<Rightarrow> int \<Rightarrow> int option \<Rightarrow> string option \<Rightarrow> string list option \<Rightarrow> vfun" where
  "StringValidator_validate L min_length max_length pattern allowed_values value h =
    (case value of
       VStr s \<Rightarrow>
         (let s0 = (new_result True, h);
              s1 = check (int (length s) < min_length)
                     (''String length must be at least '' @ py_str L (VInt min_length) @ '' characters'') s0;
              s2 = (case max_length of None \<Rightarrow> s1
                    | Some m \<Rightarrow> check (int (length s) > m)
                        (''String length must not exceed '' @ py_str L (VInt m) @ '' characters'') s1);
              s3 = (case pattern of None \<Rightarrow> s2
                    | Some p \<Rightarrow> check (\<not> re_match L p s)
                        (''String does not match required pattern '' @ p) s2);
              s4 = (case allowed_values of None \<Rightarrow> s3
                    | Some av \<Rightarrow> check (av \<noteq> [] \<and> s \<notin> set av)
                        (''Value must be one of: '' @ join '', '' av) s3)
          in Inr s4)
     | _ \<Rightarrow> Inr (check True (''Expected string but got '' @ type_name value) (new_result True, h)))"

definition NumberValidator_validate ::
  "pylib \<Rightarrow> number option \<Rightarrow> number option \<Rightarrow> bool \<Rightarrow> bool \<Rightarrow> bool \<Rightarrow> vfun" where
  "NumberValidator_validate L min_value max_value integer_only allow_negative allow_zero value h =
    (if integer_only \<and> \<not> isinstance_int value then
       Inr (check True (''Expected integer but got '' @ type_name value) (new_result True, h))
     else if \<not> isinstance_number value then
       Inr (check True (''Expected number but got '' @ type_name value) (new_result True, h))
     else
       (let s0 = (new_result True, h);
            s1 = (case min_value of None \<Rightarrow> s0
                  | Some m \<Rightarrow> check (num_value value < num_value (num_val m))
                      (''Value must be at least '' @ py_str L (num_val m)) s0);
            s2 = (case max_value of None \<Rightarrow> s1
                  | Some m \<Rightarrow> check (num_value value > num_value (num_val m))
                      (''Value must not exceed '' @ py_str L (num_val m)) s1);
            s3 = check (\<not> allow_negative \<and> num_value value < 0) ''Negative values are not allowed'' s2;
            s4 = check (\<not> allow_zero \<and> num_value value = 0) ''Zero value is not allowed'' s3
        in Inr s4))"

definition BooleanValidator_validate :: "vfun" where
  "BooleanValidator_validate value h =
     Inr (check (case value of VBool b \<Rightarrow> False | _ \<Rightarrow> True)
            (''Expected boolean but got '' @ type_name value) (new_result True, h))"

text \<open>
  \<^verbatim>\<open>DateValidator.validate\<close>. A string is parsed first when \<^verbatim>\<open>format_str\<close> is set
  and not empty; only the ValueError of the parser is caught. A \<^verbatim>\<open>datetime\<close> passes
  the isinstance check, and Python refuses to order it against the \<^verbatim>\<open>date\<close> bounds:
  the comparison raises TypeError.
\<close>

definition DateValidator_validate ::
  "pylib \<Rightarrow> date option \<Rightarrow> date option \<Rightarrow> string option \<Rightarrow> vfun" where
  "DateValidator_validate L min_date max_date format_str value h =
    (let parsed =
       (case (value, format_str) of
          (VStr s, Some fmt) \<Rightarrow>
            (if fmt = [] then Inr (Some value)
             else (case strptime L s fmt of
                     Inl e \<Rightarrow> Inl e
                   | Inr None \<Rightarrow> Inr None
                   | Inr (Some d) \<Rightarrow> Inr (Some (VDate d))))
        | _ \<Rightarrow> Inr (Some value))
     in case parsed of
       Inl e \<Rightarrow> Inl e
     | Inr None \<Rightarrow> Inr (check True
                 (''Date string does not match format '' @ (case format_str of Some fmt \<Rightarrow> fmt | None \<Rightarrow> []))
                 (new_result True, h))
     | Inr (Some (VDate d)) \<Rightarrow>
         (let s0 = (new_result True, h);
              s1 = (case min_date of None \<Rightarrow> s0
                    | Some m \<Rightarrow> check (date_less d m)
                        (''Date must be on or after '' @ py_str L (VDate m)) s0);
              s2 = (case max_date of None \<Rightarrow> s1
                    | Some m \<Rightarrow> check (date_less m d)
                        (''Date must be on or before '' @ py_str L (VDate m)) s1)
          in Inr s2)
     | Inr (Some (VDateTime d t)) \<Rightarrow>
         (if min_date = None \<and> max_date = None then Inr (new_result True, h) else Inl TypeError)
     | Inr (Some v) \<Rightarrow> Inr (check True (''Expected date but got '' @ type_name v) (new_result True, h)))"

text \<open>
  \<^verbatim>\<open>CustomValidator.validate\<close>: the callable is a function of the value that returns
  a value or raises; what it raises leaves \<^verbatim>\<open>validate\<close>. A \<open>False\<close> or a non-empty
  string it returns is an error, anything else is not.
\<close>

definition CustomValidator_validate :: "(pyval \<Rightarrow> exn + pyval) \<Rightarrow> string \<Rightarrow> vfun" where
  "CustomValidator_validate validation_func error_message value h =
    (case validation_func value of
       Inl e \<Rightarrow> Inl e
     | Inr (VBool b) \<Rightarrow> Inr (check (\<not> b) error_message (new_result True, h))
     | Inr (VStr m) \<Rightarrow> Inr (check (m \<noteq> []) m (new_result True, h))
     | Inr _ \<Rightarrow> Inr (new_result True, h))"

subsection \<open>Domain validators\<close>

text \<open>The source texts of the compiled patterns of the domain validators.\<close>

definition backslash :: string where
  "backslash = [CHR 0x5C]"

definition EMAIL_PATTERN :: string where
  "EMAIL_PATTERN = ''^[a-zA-Z0-9._%+-]+@[a-zA-Z0-9.-]+'' @ backslash @ ''.[a-zA-Z]{2,}$''"

definition URL_PATTERN :: string where
  "URL_PATTERN =
     ''^(https?:'' @ backslash @ ''/'' @ backslash @ ''/)''
     @ ''(([a-zA-Z0-9]|[a-zA-Z0-9][a-zA-Z0-9'' @ backslash @ ''-]*[a-zA-Z0-9])'' @ backslash @ ''.)''
     @ ''*([a-zA-Z0-9]|[a-zA-Z0-9][a-zA-Z0-9'' @ backslash @ ''-]*[a-zA-Z0-9])''
     @ backslash @ ''.[a-zA-Z]{2,}''
     @ ''('' @ backslash @ '':[0-9]+)?''
     @ ''('' @ backslash @ ''/[-a-zA-Z0-9_%'' @ backslash @ ''.~#?&=]*)*''
     @ ''$''"

definition basic_pattern :: string where
  "basic_pattern =
     ''^['' @ backslash @ ''d'' @ backslash @ ''s'' @ backslash @ ''('' @ backslash @ '')''
     @ backslash @ ''-'' @ backslash @ ''+'' @ backslash @ ''.]+$''"

definition e164_pattern :: string where
  "e164_pattern = ''^'' @ backslash @ ''+'' @ backslash @ ''d{1,3}'' @ backslash @ ''d{6,14}$''"

text \<open>
  \<^verbatim>\<open>EmailValidator.validate\<close>: the StringValidator it extends runs first, with
  \<^verbatim>\<open>min_length\<close> 0 or 1 and the email pattern. The two further checks run when that
  result is valid and the value is truthy; a valid result means the value is a string.
\<close>

definition EmailValidator_validate :: "pylib \<Rightarrow> bool \<Rightarrow> vfun" where
  "EmailValidator_validate L allow_empty value h =
    (case StringValidator_validate L (if allow_empty then 0 else 1) None (Some EMAIL_PATTERN) None value h of
       Inl e \<Rightarrow> Inl e
     | Inr (result, h1) \<Rightarrow>
        (case value of
           VStr s \<Rightarrow>
             if is_valid result \<and> s \<noteq> [] then
               (let s1 = check (contains s ''..'') ''Email cannot contain consecutive dots'' (result, h1);
                    parts = str_split s (CHR ''@'');
                    s2 = check (length parts = 2 \<and> CHR ''.'' \<notin> set (parts ! 1))
                           ''Email domain must contain at least one dot'' s1
                in Inr s2)
             else Inr (result, h1)
         | _ \<Rightarrow> Inr (result, h1)))"

text \<open>\<^verbatim>\<open>PasswordValidator.validate\<close>: a StringValidator with the minimum length, then the
  character classes when the value is a string.\<close>

definition PasswordValidator_validate ::
  "pylib \<Rightarrow> int \<Rightarrow> bool \<Rightarrow> bool \<Rightarrow> bool \<Rightarrow> bool \<Rightarrow> vfun" where
  "PasswordValidator_validate L min_length require_uppercase require_lowercase require_digit
       require_special value h =
    (case StringValidator_validate L min_length None None None value h of
       Inl e \<Rightarrow> Inl e
     | Inr s0 \<Rightarrow>
        (case value of
           VStr s \<Rightarrow>
             (let s1 = check (require_uppercase \<and> \<not> list_ex (isupper L) s)
                         ''Password must contain at least one uppercase letter'' s0;
                  s2 = check (require_lowercase \<and> \<not> list_ex (islower L) s)
                         ''Password must contain at least one lowercase letter'' s1;
                  s3 = check (require_digit \<and> \<not> list_ex (isdigit L) s)
                         ''Password must contain at least one digit'' s2;
                  s4 = check (require_special \<and> \<not> list_ex (\<lambda>c. \<not> isalnum L c) s)
                         ''Password must contain at least one special character'' s3
              in Inr s4)
         | _ \<Rightarrow> Inr s0))"

text \<open>
  \<^verbatim>\<open>PhoneNumberValidator.validate\<close>. \<^verbatim>\<open>''.join(value.split())\<close> drops the
  whitespace of the value.
\<close>

definition PhoneNumberValidator_validate :: "pylib \<Rightarrow> bool \<Rightarrow> string option \<Rightarrow> vfun" where
  "PhoneNumberValidator_validate L allow_international country_code value h =
    (case value of
       VStr s \<Rightarrow>
         (let clean_value = filter (\<lambda>c. \<not> isspace L c) s in
          if \<not> re_match L basic_pattern s then
            Inr (check True ''Phone number contains invalid characters'' (new_result True, h))
          else
            (let digits = filter (isdigit L) clean_value;
                 s1 = check (length digits < 7 \<or> length digits > 15)
                        ''Phone number must contain between 7 and 15 digits'' (new_result True, h);
                 s2 = (if startswith clean_value ''+'' then
                         (if \<not> allow_international then
                            check True ''International phone numbers are not allowed'' s1
                          else if \<not> re_match L e164_pattern clean_value then
                            check True ''International phone number must be in E.164 format'' s1
                          else (case country_code of
                                  None \<Rightarrow> s1
                                | Some cc \<Rightarrow>
                                    check (cc \<noteq> [] \<and> \<not> startswith clean_value (''+'' @ cc))
                                      (''Phone number must start with country code +'' @ cc) s1))
                       else s1)
             in Inr s2))
     | _ \<Rightarrow> Inr (check True (''Expected string but got '' @ type_name value) (new_result True, h)))"

text \<open>
  \<^verbatim>\<open>URLValidator.validate\<close>: a StringValidator with the URL pattern, then the protocol
  and the domain. \<^verbatim>\<open>value.split('://', 1)[1]\<close> raises IndexError when the value holds
  no \<^verbatim>\<open>://\<close>.
\<close>

definition URLValidator_validate :: "pylib \<Rightarrow> bool \<Rightarrow> string list option \<Rightarrow> vfun" where
  "URLValidator_validate L require_https allowed_domains value h =
    (case StringValidator_validate L 0 None (Some URL_PATTERN) None value h of
       Inl e \<Rightarrow> Inl e
     | Inr (result, h1) \<Rightarrow>
        (case value of
           VStr s \<Rightarrow>
             if \<not> is_valid result then Inr (result, h1)
             else
               (let s1 = check (require_https \<and> \<not> startswith s ''https://'')
                           ''URL must use HTTPS protocol'' (result, h1)
                in case allowed_domains of
                     None \<Rightarrow> Inr s1
                   | Some ds \<Rightarrow>
                       if ds = [] then Inr s1
                       else
                         (let parts = str_split1 s ''://'' in
                          if length parts < 2 then Inl IndexError
                          else
                            (let domain = hd (str_split1 (hd (str_split1 (parts ! 1) ''/'')) '':'')
                             in Inr (check (\<not> list_ex (\<lambda>d. domain = d \<or> endswith domain (''.'' @ d)) ds)
                                       (''URL domain must be one of: '' @ join '', '' ds) s1))))
         | _ \<Rightarrow> Inr (result, h1)))"

subsection \<open>Composite validators\<close>

text \<open>
  The item loop of \<^verbatim>\<open>ListValidator.validate\<close>, from index \<open>i\<close> on; \<open>f\<close> is the item
  validator's \<^verbatim>\<open>validate\<close>.
\<close>

fun items_loop :: "pylib \<Rightarrow> vfun \<Rightarrow> nat \<Rightarrow> pyval list \<Rightarrow> ValidationResult \<times> heap \<Rightarrow> outcome" where
  "items_loop L f i [] s = Inr s"
| "items_loop L f i (item # rest) (r, h) =
    (case f item h of
       Inl e \<Rightarrow> Inl e
     | Inr (item_result, h') \<Rightarrow>
         items_loop L f (Suc i) rest
           (collect (''['' @ py_str L (VInt (int i)) @ '']'') item_result (r, h')))"

definition ListValidator_validate ::
  "pylib \<Rightarrow> vfun option \<Rightarrow> int \<Rightarrow> int option \<Rightarrow> bool \<Rightarrow> vfun" where
  "ListValidator_validate L item_validator min_length max_length unique_items value h =
    (case value of
       VList xs \<Rightarrow>
         (let s0 = (new_result True, h);
              s1 = check (int (length xs) < min_length)
                     (''List must contain at least '' @ py_str L (VInt min_length) @ '' items'') s0;
              s2 = (case max_length of None \<Rightarrow> s1
                    | Some m \<Rightarrow> check (int (length xs) > m)
                        (''List must not contain more than '' @ py_str L (VInt m) @ '' items'') s1);
              s3 = check (unique_items \<and> length xs \<noteq> length (remdups (map (py_str L) xs)))
                     ''List items must be unique'' s2
          in case item_validator of None \<Rightarrow> Inr s3 | Some f \<Rightarrow> items_loop L f 0 xs s3)
     | _ \<Rightarrow> Inr (check True (''Expected list but got '' @ type_name value) (new_result True, h)))"

text \<open>
  The field loop of \<^verbatim>\<open>DictValidator.validate\<close> over \<^verbatim>\<open>self.schema.items()\<close>;
  each schema entry is the field name and the field validator's \<^verbatim>\<open>validate\<close>.
\<close>

fun fields_loop :: "(string \<times> vfun) list \<Rightarrow> (pyval \<times> pyval) list \<Rightarrow> ValidationResult \<times> heap \<Rightarrow> outcome" where
  "fields_loop [] d s = Inr s"
| "fields_loop ((fld, f) # rest) d (r, h) =
    (case map_of d (VStr fld) of
       None \<Rightarrow> fields_loop rest d (r, h)
     | Some x \<Rightarrow>
        (case f x h of
           Inl e \<Rightarrow> Inl e
         | Inr (field_result, h') \<Rightarrow> fields_loop rest d (collect fld field_result (r, h'))))"

text \<open>\<^verbatim>\<open>field not in self.schema\<close> for a key of the value: only a string equals a schema key.\<close>

fun not_in_schema :: "string list \<Rightarrow> pyval \<Rightarrow> bool" where
  "not_in_schema keys (VStr k) = (k \<notin> set keys)"
| "not_in_schema keys v = True"

definition DictValidator_validate ::
  "pylib \<Rightarrow> (string \<times> vfun) list \<Rightarrow> string list \<Rightarrow> bool \<Rightarrow> vfun" where
  "DictValidator_validate L schema required_fields allow_unknown value h =
    (case value of
       VDict d \<Rightarrow>
         (let s0 = (new_result True, h);
              missing_fields = filter (\<lambda>fld. VStr fld \<notin> set (map fst d)) required_fields;
              s1 = check (missing_fields \<noteq> [])
                     (''Missing required fields: '' @ join '', '' missing_fields) s0;
              unknown_fields = filter (not_in_schema (map fst schema)) (map fst d)
          in if \<not> allow_unknown \<and> unknown_fields \<noteq> [] then
               (case join_vals '', '' unknown_fields of
                  Inl e \<Rightarrow> Inl e
                | Inr names \<Rightarrow> fields_loop schema d (check True (''Unknown fields: '' @ names) s1))
             else fields_loop schema d s1)
     | _ \<Rightarrow> Inr (check True (''Expected dictionary but got '' @ type_name value) (new_result True, h)))"

text \<open>
  The loop of \<^verbatim>\<open>UnionValidator.validate\<close>; \<open>all_errors\<close> holds the addresses gathered
  so far, and their messages are read when the aggregate error is built.
\<close>

fun union_loop :: "vfun list \<Rightarrow> pyval \<Rightarrow> nat list \<Rightarrow> heap \<Rightarrow> outcome" where
  "union_loop [] value all_errors h =
     Inr (add_new (new_error ''Value did not match any of the expected types'' None
                     (Some [(''errors'', map (\<lambda>a. message (h ! a)) all_errors)]))
            (new_result False, h))"
| "union_loop (f # rest) value all_errors h =
    (case f value h of
       Inl e \<Rightarrow> Inl e
     | Inr (r, h') \<Rightarrow>
         if is_valid r then Inr (r, h') else union_loop rest value (all_errors @ errors r) h')"

definition UnionValidator_validate :: "vfun list \<Rightarrow> vfun" where
  "UnionValidator_validate validators value h =
     (if validators = [] then Inr (new_result True, h) else union_loop validators value [] h)"

definition OptionalValidator_validate :: "vfun \<Rightarrow> vfun" where
  "OptionalValidator_validate f value h =
     (if value = VNone then Inr (new_result True, h) else f value h)"

subsection \<open>The validator tree\<close>

text \<open>
  A validator with its configuration, as its constructor stores it. A
  \<^verbatim>\<open>JSONSchemaValidator\<close> is given by the \<^verbatim>\<open>dict_validator\<close> its constructor built.
\<close>

datatype validator =
    StringValidator int "int option" "string option" "string list option"
  | NumberValidator "number option" "number option" bool bool bool
  | BooleanValidator
  | DateValidator "date option" "date option" "string option"
  | ListValidator "validator option" int "int option" bool
  | DictValidator "(string \<times> validator) list" "string list" bool
  | UnionValidator "validator list"
  | OptionalValidator validator
  | EmailValidator bool
  | PasswordValidator int bool bool bool bool
  | PhoneNumberValidator bool "string option"
  | URLValidator bool "string list option"
  | CustomValidator "pyval \<Rightarrow> exn + pyval" string
  | JSONSchemaValidator validator

fun validate :: "pylib \<Rightarrow> validator \<Rightarrow> vfun" where
  "validate L (StringValidator mn mx pat av) value h = StringValidator_validate L mn mx pat av value h"
| "validate L (NumberValidator lo hi io an az) value h = NumberValidator_validate L lo hi io an az value h"
| "validate L BooleanValidator value h = BooleanValidator_validate value h"
| "validate L (DateValidator lo hi fmt) value h = DateValidator_validate L lo hi fmt value h"
| "validate L (ListValidator None mn mx u) value h = ListValidator_validate L None mn mx u value h"
| "validate L (ListValidator (Some iv) mn mx u) value h =
     ListValidator_validate L (Some (validate L iv)) mn mx u value h"
| "validate L (DictValidator schema req au) value h =
     DictValidator_validate L (map (\<lambda>(k, v). (k, validate L v)) schema) req au value h"
| "validate L (UnionValidator vs) value h = UnionValidator_validate (map (validate L) vs) value h"
| "validate L (OptionalValidator v) value h = OptionalValidator_validate (validate L v) value h"
| "validate L (EmailValidator ae) value h = EmailValidator_validate L ae value h"
| "validate L (PasswordValidator mn ru rl rd rs) value h = PasswordValidator_validate L mn ru rl rd rs value h"
| "validate L (PhoneNumberValidator ai cc) value h = PhoneNumberValidator_validate L ai cc value h"
| "validate L (URLValidator rh ad) value h = URLValidator_validate L rh ad value h"
| "validate L (CustomValidator fn msg) value h = CustomValidator_validate fn msg value h"
| "validate L (JSONSchemaValidator dv) value h = validate L dv value h"

subsection \<open>A library instance for evaluating examples\<close>

text \<open>
  The examples below run the validators on concrete values and need concrete builtins.
  \<open>example_str\<close> is \<^verbatim>\<open>str\<close> on None, booleans, integers and strings (for the other
  values, which no example renders, it gives the class name); \<open>example_strptime\<close> parses
  the one date string the examples pass and rejects every other with ValueError; the
  character classes are those of ASCII; no example carries a pattern.
\<close>

fun str_nat :: "nat \<Rightarrow> string" where
  "str_nat n =
     (if n < 10 then [''0123456789'' ! n] else str_nat (n div 10) @ [''0123456789'' ! (n mod 10)])"

definition str_int :: "int \<Rightarrow> string" where
  "str_int i = (if i < 0 then ''-'' @ str_nat (nat (- i)) else str_nat (nat i))"

fun example_str :: "pyval \<Rightarrow> string" where
  "example_str VNone = ''None''"
| "example_str (VBool b) = (if b then ''True'' else ''False'')"
| "example_str (VInt i) = str_int i"
| "example_str (VStr s) = s"
| "example_str v = type_name v"

definition example_strptime :: "string \<Rightarrow> string \<Rightarrow> exn + date option" where
  "example_strptime s fmt =
     (if s = ''2024-01-15'' \<and> fmt = ''%Y-%m-%d'' then Inr (Some (Date 2024 1 15)) else Inr None)"

definition in_range :: "nat \<Rightarrow> nat \<Rightarrow> char \<Rightarrow> bool" where
  "in_range lo hi c \<longleftrightarrow> lo \<le> of_char c \<and> of_char c \<le> hi"

definition example_lib :: pylib where
  "example_lib =
     \<lparr>py_str = example_str, strptime = example_strptime,
      re_compiles = (\<lambda>p. True), re_match = (\<lambda>p s. False),
      isupper = in_range 65 90, islower = in_range 97 122, isdigit = in_range 48 57,
      isalnum = (\<lambda>c. in_range 65 90 c \<or> in_range 97 122 c \<or> in_range 48 57 c),
      isspace = (\<lambda>c. in_range 9 13 c \<or> in_range 28 32 c)\<rparr>"

subsection \<open>Notions used in the proofs\<close>

text \<open>
  \<open>shift n r\<close> moves the addresses of a result by \<open>n\<close>; \<open>pre h0\<close> puts a store
  \<open>h0\<close> in front of an outcome. A \<^verbatim>\<open>validate\<close> is local when running it behind a
  longer store gives the same outcome, moved; it is good when the addresses of its result
  are distinct, were allocated during the call, and the result is valid exactly when it
  has no error.
\<close>

definition shift :: "nat \<Rightarrow> ValidationResult \<Rightarrow> ValidationResult" where
  "shift n r = r\<lparr>errors := map ((+) n) (errors r)\<rparr>"

definition pre_s :: "heap \<Rightarrow> ValidationResult \<times> heap \<Rightarrow> ValidationResult \<times> heap" where
  "pre_s h0 s = (case s of (r, h) \<Rightarrow> (shift (length h0) r, h0 @ h))"

definition pre :: "heap \<Rightarrow> outcome \<Rightarrow> outcome" where
  "pre h0 out = (case out of Inl e \<Rightarrow> Inl e | Inr s \<Rightarrow> Inr (pre_s h0 s))"

definition local_fun :: "vfun \<Rightarrow> bool" where
  "local_fun f \<longleftrightarrow> (\<forall>x h0 h. f x (h0 @ h) = pre h0 (f x h))"

definition good_state :: "nat \<Rightarrow> ValidationResult \<times> heap \<Rightarrow> bool" where
  "good_state n s \<longleftrightarrow> (case s of (r, h) \<Rightarrow>
     distinct (errors r) \<and> (\<forall>a \<in> set (errors r). n \<le> a \<and> a < length h) \<and>
     (is_valid r \<longleftrightarrow> errors r = []))"

definition good_fun :: "vfun \<Rightarrow> bool" where
  "good_fun f \<longleftrightarrow> (\<forall>x h r h'. f x h = Inr (r, h') \<longrightarrow> length h \<le> length h' \<and> good_state (length h) (r, h'))"

definition good2 :: "nat \<Rightarrow> ValidationResult \<times> heap \<Rightarrow> bool" where
  "good2 n s \<longleftrightarrow> good_state n s \<and> n \<le> length (snd s)"

definition okout :: "heap \<Rightarrow> outcome \<Rightarrow> bool" where
  "okout h out \<longleftrightarrow> (case out of Inl e \<Rightarrow> True | Inr s \<Rightarrow> good2 (length h) s)"








text \<open>
  A candidate accepts a value when its \<^verbatim>\<open>validate\<close> returns a valid result, and rejects
  it when it returns an invalid one (a candidate that raises does neither); the messages of
  the errors of that result; the error that a UnionValidator builds when no candidate has
  accepted. By locality the store on which the candidate is run does not matter.
\<close>

definition accepts :: "pylib \<Rightarrow> validator \<Rightarrow> pyval \<Rightarrow> bool" where
  "accepts L c x = (case validate L c x [] of Inl e \<Rightarrow> False | Inr (r, h) \<Rightarrow> is_valid r)"

definition rejects :: "pylib \<Rightarrow> validator \<Rightarrow> pyval \<Rightarrow> bool" where
  "rejects L c x = (case validate L c x [] of Inl e \<Rightarrow> False | Inr (r, h) \<Rightarrow> \<not> is_valid r)"

definition failure_messages :: "pylib \<Rightarrow> validator \<Rightarrow> pyval \<Rightarrow> string list" where
  "failure_messages L c x =
     (case validate L c x [] of Inl e \<Rightarrow> [] | Inr (r, h) \<Rightarrow> map message (read h r))"

definition aggregate_error :: "string list \<Rightarrow> ValidationError" where
  "aggregate_error msgs =
     \<lparr>message = ''Value did not match any of the expected types'', field = None,
      details = [(''errors'', msgs)]\<rparr>"

section \<open>Properties\<close>

subsection \<open>Basic facts\<close>

lemma check_True [simp]:
  "check True m (r, h) = (add_error r (length h), h @ [new_error m None None])"
  by (simp add: check_def add_new_def alloc_def)

lemma check_False [simp]: "check False m s = s"
  by (simp add: check_def)

subsection \<open>Locality: a validation does not depend on the store it starts from\<close>

lemma shift_simps [simp]:
  "is_valid (shift n r) = is_valid r"
  "errors (shift n r) = map ((+) n) (errors r)"
  "shift n (new_result b) = new_result b"
  "shift n (add_error r a) = add_error (shift n r) (n + a)"
  by (simp_all add: shift_def new_result_def add_error_def)

lemma pre_s_pair [simp]: "pre_s h0 (r, h) = (shift (length h0) r, h0 @ h)"
  by (simp add: pre_s_def)

lemma pre_simps [simp]: "pre h0 (Inl e) = Inl e" "pre h0 (Inr s) = Inr (pre_s h0 s)"
  by (simp_all add: pre_def)

lemma add_new_pre: "add_new e (pre_s h0 s) = pre_s h0 (add_new e s)"
  by (cases s) (simp add: add_new_def alloc_def)

lemma check_pre: "check c m (pre_s h0 s) = pre_s h0 (check c m s)"
  by (simp add: check_def add_new_pre)

lemma set_field_pre:
  "set_field (length h0 + a) v (h0 @ h) = h0 @ set_field a v h"
  by (simp add: set_field_def list_update_append nth_append)

lemma attach_pre:
  "attach p (map ((+) (length h0)) as) (pre_s h0 s) = pre_s h0 (attach p as s)"
proof (induction as arbitrary: s)
  case Nil
  then show ?case by simp
next
  case (Cons a as)
  obtain r h where s: "s = (r, h)" by (cases s)
  have "attach p (map ((+) (length h0)) (a # as)) (pre_s h0 s)
      = attach p (map ((+) (length h0)) as)
          (pre_s h0 (add_error r a, set_field a (Some (prefix_field p (field (h ! a)))) h))"
    by (simp add: s set_field_pre nth_append)
  then show ?case
    using Cons.IH [of "(add_error r a, set_field a (Some (prefix_field p (field (h ! a)))) h)"]
    by (simp add: s)
qed

lemma collect_pre:
  "collect p (shift (length h0) c) (pre_s h0 s) = pre_s h0 (collect p c s)"
  by (simp add: collect_def attach_pre)

lemma local_funD: "local_fun f \<Longrightarrow> f x (h0 @ h) = pre h0 (f x h)"
  by (simp add: local_fun_def)

lemma items_loop_pre:
  assumes "local_fun f"
  shows "items_loop L f i xs (pre_s h0 s) = pre h0 (items_loop L f i xs s)"
proof (induction xs arbitrary: i s)
  case Nil
  then show ?case by simp
next
  case (Cons x xs)
  obtain r h where s: "s = (r, h)" by (cases s)
  show ?case
  proof (cases "f x h")
    case (Inl e)
    then show ?thesis using local_funD [OF assms, of x h0 h] by (simp add: s)
  next
    case (Inr t)
    obtain ir h' where t: "t = (ir, h')" by (cases t)
    have "f x (h0 @ h) = Inr (shift (length h0) ir, h0 @ h')"
      using local_funD [OF assms, of x h0 h] Inr t by simp
    then show ?thesis
      using Cons.IH [of "Suc i" "collect (''['' @ py_str L (VInt (int i)) @ '']'') ir (r, h')"] Inr t
        collect_pre [of "(''['' @ py_str L (VInt (int i)) @ '']'')" h0 ir "(r, h')"]
      by (simp add: s)
  qed
qed

lemma fields_loop_pre:
  assumes "\<forall>kf \<in> set fs. local_fun (snd kf)"
  shows "fields_loop fs d (pre_s h0 s) = pre h0 (fields_loop fs d s)"
  using assms
proof (induction fs arbitrary: s)
  case Nil
  then show ?case by simp
next
  case (Cons kf fs)
  obtain k f where kf: "kf = (k, f)" by (cases kf)
  obtain r h where s: "s = (r, h)" by (cases s)
  have lf: "local_fun f" using Cons.prems by (simp add: kf)
  have IH: "\<And>s. fields_loop fs d (pre_s h0 s) = pre h0 (fields_loop fs d s)"
    using Cons.IH Cons.prems by simp
  show ?case
  proof (cases "map_of d (VStr k)")
    case None
    then show ?thesis using IH [of "(r, h)"] by (simp add: kf s)
  next
    case (Some x)
    show ?thesis
    proof (cases "f x h")
      case (Inl e)
      then show ?thesis using local_funD [OF lf, of x h0 h] Some by (simp add: kf s)
    next
      case (Inr t)
      obtain fr h' where t: "t = (fr, h')" by (cases t)
      have "f x (h0 @ h) = Inr (shift (length h0) fr, h0 @ h')"
        using local_funD [OF lf, of x h0 h] Inr t by simp
      then show ?thesis
        using IH [of "collect k fr (r, h')"] Inr t Some collect_pre [of k h0 fr "(r, h')"]
        by (simp add: kf s)
    qed
  qed
qed

lemma union_loop_pre:
  assumes "\<forall>f \<in> set fs. local_fun f"
  shows "union_loop fs x (map ((+) (length h0)) ae) (h0 @ h) = pre h0 (union_loop fs x ae h)"
  using assms
proof (induction fs arbitrary: ae h)
  case Nil
  have "map (\<lambda>a. message ((h0 @ h) ! a)) (map ((+) (length h0)) ae) = map (\<lambda>a. message (h ! a)) ae"
    by (simp add: nth_append o_def)
  then show ?case
    using add_new_pre [of _ h0 "(new_result False, h)"] by (simp del: map_map)
next
  case (Cons f fs)
  have lf: "local_fun f" using Cons.prems by simp
  show ?case
  proof (cases "f x h")
    case (Inl e)
    then show ?thesis using local_funD [OF lf, of x h0 h] by simp
  next
    case (Inr t)
    obtain r h' where t: "t = (r, h')" by (cases t)
    have "f x (h0 @ h) = Inr (shift (length h0) r, h0 @ h')"
      using local_funD [OF lf, of x h0 h] Inr t by simp
    then show ?thesis
      using Cons.IH [of "ae @ errors r" h'] Cons.prems Inr t by simp
  qed
qed

lemma check_pre_pair:
  "check c m (shift (length h0) r, h0 @ h) = pre_s h0 (check c m (r, h))"
  using check_pre [of c m h0 "(r, h)"] by simp

lemma init_pre: "(new_result b, h0 @ h) = pre_s h0 (new_result b, h)"
  by simp

lemmas pre_rules = check_pre init_pre

lemma local_String: "local_fun (StringValidator_validate L mn mx pat av)"
  unfolding local_fun_def
proof (intro allI)
  fix x h0 h
  show "StringValidator_validate L mn mx pat av x (h0 @ h) = pre h0 (StringValidator_validate L mn mx pat av x h)"
    by (cases x)
       (simp_all add: StringValidator_validate_def Let_def pre_rules split: option.splits
          del: pre_s_pair check_True)
qed

lemma local_Number: "local_fun (NumberValidator_validate L lo hi io an az)"
  unfolding local_fun_def
proof (intro allI)
  fix x h0 h
  show "NumberValidator_validate L lo hi io an az x (h0 @ h) = pre h0 (NumberValidator_validate L lo hi io an az x h)"
    by (simp add: NumberValidator_validate_def Let_def pre_rules split: option.splits
          del: pre_s_pair check_True)
qed

lemma local_Boolean: "local_fun BooleanValidator_validate"
  unfolding local_fun_def
  by (simp add: BooleanValidator_validate_def pre_rules del: pre_s_pair check_True)

lemma local_Date: "local_fun (DateValidator_validate L lo hi fmt)"
  unfolding local_fun_def
proof (intro allI)
  fix x h0 h
  show "DateValidator_validate L lo hi fmt x (h0 @ h) = pre h0 (DateValidator_validate L lo hi fmt x h)"
    by (simp add: DateValidator_validate_def Let_def pre_rules
          split: option.splits pyval.splits sum.splits del: pre_s_pair check_True)
qed

lemma local_Custom: "local_fun (CustomValidator_validate fn msg)"
  unfolding local_fun_def
  by (simp add: CustomValidator_validate_def pre_rules split: sum.splits pyval.splits
        del: pre_s_pair check_True)

lemma local_Email: "local_fun (EmailValidator_validate L ae)"
  unfolding local_fun_def
proof (intro allI)
  fix x h0 h
  let ?S = "StringValidator_validate L (if ae then 0 else 1) None (Some EMAIL_PATTERN) None"
  have l: "?S x (h0 @ h) = pre h0 (?S x h)" by (rule local_funD [OF local_String])
  show "EmailValidator_validate L ae x (h0 @ h) = pre h0 (EmailValidator_validate L ae x h)"
  proof (cases "?S x h")
    case (Inl e)
    then show ?thesis using l by (simp add: EmailValidator_validate_def)
  next
    case (Inr t)
    obtain r h1 where t: "t = (r, h1)" by (cases t)
    show ?thesis using l Inr t
      by (cases x)
         (simp_all add: EmailValidator_validate_def Let_def check_pre_pair check_pre del: check_True)
  qed
qed

lemma local_Password: "local_fun (PasswordValidator_validate L mn ru rl rd rs)"
  unfolding local_fun_def
proof (intro allI)
  fix x h0 h
  let ?S = "StringValidator_validate L mn None None None"
  have l: "?S x (h0 @ h) = pre h0 (?S x h)" by (rule local_funD [OF local_String])
  show "PasswordValidator_validate L mn ru rl rd rs x (h0 @ h)
      = pre h0 (PasswordValidator_validate L mn ru rl rd rs x h)"
  proof (cases "?S x h")
    case (Inl e)
    then show ?thesis using l by (simp add: PasswordValidator_validate_def)
  next
    case (Inr t)
    show ?thesis using l Inr
      by (cases x)
         (simp_all add: PasswordValidator_validate_def Let_def check_pre del: check_True pre_s_pair)
  qed
qed

lemma local_Phone: "local_fun (PhoneNumberValidator_validate L ai cc)"
  unfolding local_fun_def
proof (intro allI)
  fix x h0 h
  show "PhoneNumberValidator_validate L ai cc x (h0 @ h) = pre h0 (PhoneNumberValidator_validate L ai cc x h)"
    by (cases x)
       (simp_all add: PhoneNumberValidator_validate_def Let_def pre_rules split: option.splits
          del: pre_s_pair check_True)
qed

lemma local_URL: "local_fun (URLValidator_validate L rh ad)"
  unfolding local_fun_def
proof (intro allI)
  fix x h0 h
  let ?S = "StringValidator_validate L 0 None (Some URL_PATTERN) None"
  have l: "?S x (h0 @ h) = pre h0 (?S x h)" by (rule local_funD [OF local_String])
  show "URLValidator_validate L rh ad x (h0 @ h) = pre h0 (URLValidator_validate L rh ad x h)"
  proof (cases "?S x h")
    case (Inl e)
    then show ?thesis using l by (simp add: URLValidator_validate_def)
  next
    case (Inr t)
    obtain r h1 where t: "t = (r, h1)" by (cases t)
    show ?thesis using l Inr t
      by (cases x)
         (simp_all add: URLValidator_validate_def Let_def check_pre_pair check_pre
            split: option.splits del: check_True)
  qed
qed

lemma local_List:
  assumes "\<forall>f. item_validator = Some f \<longrightarrow> local_fun f"
  shows "local_fun (ListValidator_validate L item_validator mn mx u)"
  unfolding local_fun_def
proof (intro allI)
  fix x h0 h
  show "ListValidator_validate L item_validator mn mx u x (h0 @ h) = pre h0 (ListValidator_validate L item_validator mn mx u x h)"
    using assms
    by (cases x)
       (simp_all add: ListValidator_validate_def Let_def pre_rules items_loop_pre
          split: option.splits del: pre_s_pair check_True)
qed

lemma local_Dict:
  assumes "\<forall>kf \<in> set schema. local_fun (snd kf)"
  shows "local_fun (DictValidator_validate L schema req au)"
  unfolding local_fun_def
proof (intro allI)
  fix x h0 h
  show "DictValidator_validate L schema req au x (h0 @ h) = pre h0 (DictValidator_validate L schema req au x h)"
    using assms
    by (cases x)
       (simp_all add: DictValidator_validate_def Let_def pre_rules fields_loop_pre
          split: sum.splits del: pre_s_pair check_True)
qed

lemma local_Union:
  assumes "\<forall>f \<in> set fs. local_fun f"
  shows "local_fun (UnionValidator_validate fs)"
  unfolding local_fun_def
  using union_loop_pre [OF assms, of _ _ "[]"]
  by (simp add: UnionValidator_validate_def)

lemma local_Optional:
  assumes "local_fun f"
  shows "local_fun (OptionalValidator_validate f)"
  unfolding local_fun_def
  using local_funD [OF assms]
  by (simp add: OptionalValidator_validate_def)

lemma local_validate: "local_fun (validate L v)"
proof (induction v)
  case (StringValidator x1 x2 x3 x4)
  then show ?case using local_String by (simp add: local_fun_def)
next
  case (NumberValidator x1 x2 x3 x4 x5)
  then show ?case using local_Number by (simp add: local_fun_def)
next
  case BooleanValidator
  then show ?case using local_Boolean by (simp add: local_fun_def)
next
  case (DateValidator x1 x2 x3)
  then show ?case using local_Date by (simp add: local_fun_def)
next
  case (ListValidator iv mn mx u)
  show ?case
  proof (cases iv)
    case None
    then show ?thesis using local_List [of None L mn mx u] by (simp add: local_fun_def)
  next
    case (Some v)
    then have "local_fun (validate L v)" using ListValidator by simp
    then show ?thesis using local_List [of "Some (validate L v)" L mn mx u] Some
      by (simp add: local_fun_def)
  qed
next
  case (DictValidator schema req au)
  have "\<forall>kf \<in> set (map (\<lambda>(k, v). (k, validate L v)) schema). local_fun (snd kf)"
    using DictValidator by fastforce
  from local_Dict [OF this] show ?case by (simp add: local_fun_def)
next
  case (UnionValidator vs)
  have "\<forall>f \<in> set (map (validate L) vs). local_fun f"
    using UnionValidator by simp
  from local_Union [OF this] show ?case by (simp add: local_fun_def)
next
  case (OptionalValidator v)
  from local_Optional [OF this] show ?case by (simp add: local_fun_def)
next
  case (EmailValidator ae)
  then show ?case using local_Email by (simp add: local_fun_def)
next
  case (PasswordValidator x1 x2 x3 x4 x5)
  then show ?case using local_Password by (simp add: local_fun_def)
next
  case (PhoneNumberValidator x1 x2)
  then show ?case using local_Phone by (simp add: local_fun_def)
next
  case (URLValidator x1 x2)
  then show ?case using local_URL by (simp add: local_fun_def)
next
  case (CustomValidator fn msg)
  then show ?case using local_Custom by (simp add: local_fun_def)
next
  case (JSONSchemaValidator v)
  then show ?case by (simp add: local_fun_def)
qed

lemma good_state_pair:
  "good_state n (r, h) \<longleftrightarrow>
     distinct (errors r) \<and> (\<forall>a \<in> set (errors r). n \<le> a \<and> a < length h) \<and>
     (is_valid r \<longleftrightarrow> errors r = [])"
  by (simp add: good_state_def)

lemma good_init: "good_state n (new_result True, h)"
  by (simp add: good_state_pair new_result_def)

lemma good_state_mono:
  "good_state m (r, h) \<Longrightarrow> n \<le> m \<Longrightarrow> length h \<le> length h' \<Longrightarrow> good_state n (r, h')"
  by (fastforce simp: good_state_pair)

lemma check_length: "length (snd s) \<le> length (snd (check c m s))"
  by (cases s) (simp add: check_def add_new_def alloc_def)

lemma check_good: "good_state n s \<Longrightarrow> n \<le> length (snd s) \<Longrightarrow> good_state n (check c m s)"
  by (cases s) (auto simp: check_def add_new_def alloc_def good_state_pair add_error_def)

lemma attach_length: "length (snd (attach p as s)) = length (snd s)"
proof (induction as arbitrary: s)
  case Nil
  then show ?case by simp
next
  case (Cons a as)
  obtain r h where s: "s = (r, h)" by (cases s)
  show ?case using Cons.IH [of "(add_error r a, set_field a (Some (prefix_field p (field (h ! a)))) h)"]
    by (simp add: s set_field_def)
qed

lemma attach_errors: "errors (fst (attach p as s)) = errors (fst s) @ as"
proof (induction as arbitrary: s)
  case Nil
  then show ?case by simp
next
  case (Cons a as)
  obtain r h where s: "s = (r, h)" by (cases s)
  show ?case using Cons.IH [of "(add_error r a, set_field a (Some (prefix_field p (field (h ! a)))) h)"]
    by (simp add: s add_error_def)
qed

lemma attach_valid: "as \<noteq> [] \<Longrightarrow> \<not> is_valid (fst (attach p as s))"
proof (induction as arbitrary: s)
  case Nil
  then show ?case by simp
next
  case (Cons a as)
  obtain r h where s: "s = (r, h)" by (cases s)
  show ?case
  proof (cases as)
    case Nil
    then show ?thesis by (simp add: s add_error_def)
  next
    case (Cons b bs)
    then show ?thesis
      using Cons.IH [of "(add_error r a, set_field a (Some (prefix_field p (field (h ! a)))) h)"]
      by (simp add: s)
  qed
qed

lemma collect_length: "length (snd (collect p c s)) = length (snd s)"
  by (simp add: collect_def attach_length)

lemma collect_good:
  assumes "good_state n (r, h)" "length h \<le> length h'" "good_state (length h) (c, h')"
    and "n \<le> length h"
  shows "good_state n (collect p c (r, h'))"
proof (cases "is_valid c")
  case True
  then show ?thesis using assms by (auto simp: collect_def good_state_pair)
next
  case False
  let ?t = "attach p (errors c) (r, h')"
  have ne: "errors c \<noteq> []" using False assms(3) by (simp add: good_state_pair)
  have e: "errors (fst ?t) = errors r @ errors c" by (simp add: attach_errors)
  have l: "length (snd ?t) = length h'" by (simp add: attach_length)
  have v: "\<not> is_valid (fst ?t)" using ne by (rule attach_valid)
  have d: "distinct (errors r @ errors c)"
    using assms by (fastforce simp: good_state_pair)
  have b: "\<forall>a \<in> set (errors r @ errors c). n \<le> a \<and> a < length h'"
    using assms by (fastforce simp: good_state_pair)
  have "good_state n (fst ?t, snd ?t)"
    unfolding good_state_pair e l using d b v ne by simp
  then show ?thesis using False by (simp add: collect_def)
qed

lemma good_funD:
  "good_fun f \<Longrightarrow> f x h = Inr (r, h') \<Longrightarrow> length h \<le> length h' \<and> good_state (length h) (r, h')"
  by (simp add: good_fun_def)

lemma items_loop_good:
  assumes "good_fun f"
  shows "good_state n (r, h) \<Longrightarrow> items_loop L f i xs (r, h) = Inr (r', h') \<Longrightarrow> n \<le> length h \<Longrightarrow>
         good_state n (r', h') \<and> length h \<le> length h'"
proof (induction xs arbitrary: i r h)
  case Nil
  then show ?case by simp
next
  case (Cons x xs)
  from Cons.prems(2) obtain c h1 where c: "f x h = Inr (c, h1)"
    by (auto split: sum.splits)
  let ?p = "''['' @ py_str L (VInt (int i)) @ '']''"
  obtain r2 h2 where s2: "collect ?p c (r, h1) = (r2, h2)" by (cases "collect ?p c (r, h1)")
  have g: "length h \<le> length h1" "good_state (length h) (c, h1)"
    using good_funD [OF assms c] by simp_all
  have g2: "good_state n (r2, h2)"
    using collect_good [OF Cons.prems(1) g Cons.prems(3), of ?p] s2 by simp
  have l2: "length h2 = length h1" using collect_length [of ?p c "(r, h1)"] s2 by simp
  have "items_loop L f (Suc i) xs (r2, h2) = Inr (r', h')"
    using Cons.prems(2) c s2 by simp
  from Cons.IH [OF g2 this] show ?case using g(1) l2 Cons.prems(3) by simp
qed

lemma fields_loop_good:
  shows "good_state n (r, h) \<Longrightarrow> fields_loop fs d (r, h) = Inr (r', h') \<Longrightarrow> n \<le> length h \<Longrightarrow>
         (\<forall>kf \<in> set fs. good_fun (snd kf)) \<Longrightarrow>
         good_state n (r', h') \<and> length h \<le> length h'"
proof (induction fs arbitrary: r h)
  case Nil
  then show ?case by simp
next
  case (Cons kf fs)
  obtain k f where kf: "kf = (k, f)" by (cases kf)
  have gf: "good_fun f" using Cons.prems(4) by (simp add: kf)
  have rest: "\<forall>kf \<in> set fs. good_fun (snd kf)" using Cons.prems(4) by simp
  show ?case
  proof (cases "map_of d (VStr k)")
    case None
    then have "fields_loop fs d (r, h) = Inr (r', h')" using Cons.prems(2) by (simp add: kf)
    from Cons.IH [OF Cons.prems(1) this Cons.prems(3) rest] show ?thesis .
  next
    case (Some x)
    from Cons.prems(2) Some obtain c h1 where c: "f x h = Inr (c, h1)"
      by (auto simp: kf split: sum.splits)
    obtain r2 h2 where s2: "collect k c (r, h1) = (r2, h2)" by (cases "collect k c (r, h1)")
    have g: "length h \<le> length h1" "good_state (length h) (c, h1)"
      using good_funD [OF gf c] by simp_all
    have g2: "good_state n (r2, h2)"
      using collect_good [OF Cons.prems(1) g Cons.prems(3), of k] s2 by simp
    have l2: "length h2 = length h1" using collect_length [of k c "(r, h1)"] s2 by simp
    have "fields_loop fs d (r2, h2) = Inr (r', h')"
      using Cons.prems(2) c s2 Some by (simp add: kf)
    have "n \<le> length h2" using l2 g(1) Cons.prems(3) by simp
    from Cons.IH [OF g2 \<open>fields_loop fs d (r2, h2) = Inr (r', h')\<close> this rest] show ?thesis using g(1) l2 by simp
  qed
qed

lemma union_loop_good:
  shows "n \<le> length h \<Longrightarrow> union_loop fs x ae h = Inr (r', h') \<Longrightarrow>
         (\<forall>f \<in> set fs. good_fun f) \<Longrightarrow>
         good_state n (r', h') \<and> length h \<le> length h'"
proof (induction fs arbitrary: ae h)
  case Nil
  then show ?case
    by (auto simp: add_new_def alloc_def good_state_pair add_error_def new_result_def)
next
  case (Cons f fs)
  have gf: "good_fun f" using Cons.prems(3) by simp
  have rest: "\<forall>f \<in> set fs. good_fun f" using Cons.prems(3) by simp
  from Cons.prems(2) obtain c h1 where c: "f x h = Inr (c, h1)"
    by (auto split: sum.splits)
  have g: "length h \<le> length h1" "good_state (length h) (c, h1)"
    using good_funD [OF gf c] by simp_all
  show ?case
  proof (cases "is_valid c")
    case True
    then have "r' = c" "h' = h1" using Cons.prems(2) c by simp_all
    then show ?thesis using g Cons.prems(1) good_state_mono [OF g(2), of n h1] by simp
  next
    case False
    then have "union_loop fs x (ae @ errors c) h1 = Inr (r', h')" using Cons.prems(2) c by simp
    from Cons.IH [OF _ this rest] Cons.prems(1) g(1) show ?thesis by simp
  qed
qed

lemma okout_simps [simp]: "okout h (Inl e)" "okout h (Inr s) = good2 (length h) s"
  by (simp_all add: okout_def)

lemma good2_init [simp]: "good2 (length h) (new_result True, h)"
  by (simp add: good2_def good_init)

lemma good2_check [simp]: "good2 n s \<Longrightarrow> good2 n (check c m s)"
  unfolding good2_def using check_good [of n s c m] check_length [of s c m] by simp

lemma good_fun_okout: "good_fun f \<longleftrightarrow> (\<forall>x h. okout h (f x h))"
  by (auto simp: good_fun_def okout_def good2_def split: sum.splits)

lemma good_String: "good_fun (StringValidator_validate L mn mx pat av)"
  unfolding good_fun_okout
proof (intro allI)
  fix x h
  show "okout h (StringValidator_validate L mn mx pat av x h)"
    by (cases x) (simp_all add: StringValidator_validate_def Let_def split: option.splits del: check_True)
qed

lemma good_Number: "good_fun (NumberValidator_validate L lo hi io an az)"
  unfolding good_fun_okout
  by (simp add: NumberValidator_validate_def Let_def split: option.splits del: check_True)

lemma good_Boolean: "good_fun BooleanValidator_validate"
  unfolding good_fun_okout
  by (simp add: BooleanValidator_validate_def del: check_True)

lemma good_Date: "good_fun (DateValidator_validate L lo hi fmt)"
  unfolding good_fun_okout
  by (simp add: DateValidator_validate_def Let_def split: option.splits pyval.splits sum.splits
        del: check_True)

lemma good_Custom: "good_fun (CustomValidator_validate fn msg)"
  unfolding good_fun_okout
  by (simp add: CustomValidator_validate_def split: sum.splits pyval.splits del: check_True)

lemma good_funD2:
  assumes "good_fun f" "f x h = Inr s"
  shows "good2 (length h) s"
proof -
  have "okout h (f x h)" using assms(1) by (simp add: good_fun_okout)
  then show ?thesis by (simp add: assms(2))
qed

lemma good_Email: "good_fun (EmailValidator_validate L ae)"
  unfolding good_fun_okout
proof (intro allI)
  fix x h
  let ?S = "StringValidator_validate L (if ae then 0 else 1) None (Some EMAIL_PATTERN) None"
  show "okout h (EmailValidator_validate L ae x h)"
  proof (cases "?S x h")
    case (Inl e)
    then show ?thesis by (simp add: EmailValidator_validate_def)
  next
    case (Inr t)
    obtain r h1 where t: "t = (r, h1)" by (cases t)
    have "good2 (length h) (r, h1)" using good_funD2 [OF good_String Inr] t by simp
    then show ?thesis using Inr t
      by (cases x) (simp_all add: EmailValidator_validate_def Let_def del: check_True)
  qed
qed

lemma good_Password: "good_fun (PasswordValidator_validate L mn ru rl rd rs)"
  unfolding good_fun_okout
proof (intro allI)
  fix x h
  let ?S = "StringValidator_validate L mn None None None"
  show "okout h (PasswordValidator_validate L mn ru rl rd rs x h)"
  proof (cases "?S x h")
    case (Inl e)
    then show ?thesis by (simp add: PasswordValidator_validate_def)
  next
    case (Inr t)
    have "good2 (length h) t" using good_funD2 [OF good_String Inr] by simp
    then show ?thesis using Inr
      by (cases x) (simp_all add: PasswordValidator_validate_def Let_def del: check_True)
  qed
qed

lemma good_Phone: "good_fun (PhoneNumberValidator_validate L ai cc)"
  unfolding good_fun_okout
proof (intro allI)
  fix x h
  show "okout h (PhoneNumberValidator_validate L ai cc x h)"
    by (cases x)
       (simp_all add: PhoneNumberValidator_validate_def Let_def split: option.splits del: check_True)
qed

lemma good_URL: "good_fun (URLValidator_validate L rh ad)"
  unfolding good_fun_okout
proof (intro allI)
  fix x h
  let ?S = "StringValidator_validate L 0 None (Some URL_PATTERN) None"
  show "okout h (URLValidator_validate L rh ad x h)"
  proof (cases "?S x h")
    case (Inl e)
    then show ?thesis by (simp add: URLValidator_validate_def)
  next
    case (Inr t)
    obtain r h1 where t: "t = (r, h1)" by (cases t)
    have "good2 (length h) (r, h1)" using good_funD2 [OF good_String Inr] t by simp
    then show ?thesis using Inr t
      by (cases x)
         (simp_all add: URLValidator_validate_def Let_def split: option.splits del: check_True)
  qed
qed

lemma okout_items:
  assumes "good_fun f" "good2 n s"
  shows "case items_loop L f i xs s of Inl e \<Rightarrow> True | Inr s' \<Rightarrow> good2 n s'"
proof (cases "items_loop L f i xs s")
  case (Inl e)
  then show ?thesis by simp
next
  case (Inr s')
  obtain r h where s: "s = (r, h)" by (cases s)
  obtain r' h' where s': "s' = (r', h')" by (cases s')
  have "good_state n (r', h') \<and> length h \<le> length h'"
    using items_loop_good [OF assms(1), of n r h L i xs r' h'] assms(2) Inr
    by (simp add: s s' good2_def)
  then show ?thesis using Inr assms(2) by (simp add: s s' good2_def)
qed

lemma okout_fields:
  assumes "\<forall>kf \<in> set fs. good_fun (snd kf)" "good2 n s"
  shows "case fields_loop fs d s of Inl e \<Rightarrow> True | Inr s' \<Rightarrow> good2 n s'"
proof (cases "fields_loop fs d s")
  case (Inl e)
  then show ?thesis by simp
next
  case (Inr s')
  obtain r h where s: "s = (r, h)" by (cases s)
  obtain r' h' where s': "s' = (r', h')" by (cases s')
  have "good_state n (r', h') \<and> length h \<le> length h'"
    using fields_loop_good [of n r h fs d r' h'] assms Inr
    by (simp add: s s' good2_def)
  then show ?thesis using Inr assms(2) by (simp add: s s' good2_def)
qed

lemma good_List:
  assumes "\<forall>f. item_validator = Some f \<longrightarrow> good_fun f"
  shows "good_fun (ListValidator_validate L item_validator mn mx u)"
  unfolding good_fun_okout
proof (intro allI)
  fix x h
  show "okout h (ListValidator_validate L item_validator mn mx u x h)"
  proof (cases x)
    case (VList xs)
    define s3 where "s3 = (let s0 = (new_result True, h);
              s1 = check (int (length xs) < mn)
                     (''List must contain at least '' @ py_str L (VInt mn) @ '' items'') s0;
              s2 = (case mx of None \<Rightarrow> s1
                    | Some m \<Rightarrow> check (int (length xs) > m)
                        (''List must not contain more than '' @ py_str L (VInt m) @ '' items'') s1)
          in check (u \<and> length xs \<noteq> length (remdups (map (py_str L) xs)))
                     ''List items must be unique'' s2)"
    have g: "good2 (length h) s3"
      by (simp add: s3_def Let_def split: option.splits del: check_True)
    have e: "ListValidator_validate L item_validator mn mx u x h =
        (case item_validator of None \<Rightarrow> Inr s3 | Some f \<Rightarrow> items_loop L f 0 xs s3)"
      by (simp only: ListValidator_validate_def VList s3_def Let_def pyval.case)
    show ?thesis
    proof (cases item_validator)
      case None
      then show ?thesis using e g by simp
    next
      case (Some f)
      then have "good_fun f" using assms by simp
      from okout_items [OF this g, of L 0 xs] show ?thesis using e Some by (simp add: okout_def)
    qed
  qed (simp_all add: ListValidator_validate_def del: check_True)
qed

lemma good_Dict:
  assumes "\<forall>kf \<in> set schema. good_fun (snd kf)"
  shows "good_fun (DictValidator_validate L schema req au)"
  unfolding good_fun_okout
proof (intro allI)
  fix x h
  show "okout h (DictValidator_validate L schema req au x h)"
  proof (cases x)
    case (VDict d)
    have l: "\<And>s. good2 (length h) s \<Longrightarrow> okout h (fields_loop schema d s)"
      using okout_fields [OF assms] by (simp add: okout_def)
    show ?thesis
      by (simp add: DictValidator_validate_def VDict Let_def l split: sum.splits del: check_True)
  qed (simp_all add: DictValidator_validate_def del: check_True)
qed

lemma good_Union:
  assumes "\<forall>f \<in> set fs. good_fun f"
  shows "good_fun (UnionValidator_validate fs)"
  unfolding good_fun_def
proof (intro allI impI)
  fix x h r h'
  assume a: "UnionValidator_validate fs x h = Inr (r, h')"
  show "length h \<le> length h' \<and> good_state (length h) (r, h')"
  proof (cases "fs = []")
    case True
    then have "r = new_result True" "h' = h" using a by (auto simp: UnionValidator_validate_def)
    then show ?thesis by (simp add: good_init)
  next
    case False
    then have "union_loop fs x [] h = Inr (r, h')" using a by (simp add: UnionValidator_validate_def)
    from union_loop_good [OF _ this assms, of "length h"] show ?thesis by simp
  qed
qed

lemma good_Optional:
  assumes "good_fun f"
  shows "good_fun (OptionalValidator_validate f)"
  using assms unfolding good_fun_okout
  by (simp add: OptionalValidator_validate_def)

lemma good_validate: "good_fun (validate L v)"
proof (induction v)
  case (StringValidator x1 x2 x3 x4)
  then show ?case using good_String by (simp add: good_fun_def)
next
  case (NumberValidator x1 x2 x3 x4 x5)
  then show ?case using good_Number by (simp add: good_fun_def)
next
  case BooleanValidator
  then show ?case using good_Boolean by (simp add: good_fun_def)
next
  case (DateValidator x1 x2 x3)
  then show ?case using good_Date by (simp add: good_fun_def)
next
  case (ListValidator iv mn mx u)
  show ?case
  proof (cases iv)
    case None
    then show ?thesis using good_List [of None L mn mx u] by (simp add: good_fun_def)
  next
    case (Some v)
    then have "good_fun (validate L v)" using ListValidator by simp
    then show ?thesis using good_List [of "Some (validate L v)" L mn mx u] Some
      by (simp add: good_fun_def)
  qed
next
  case (DictValidator schema req au)
  have "\<forall>kf \<in> set (map (\<lambda>(k, v). (k, validate L v)) schema). good_fun (snd kf)"
    using DictValidator by fastforce
  from good_Dict [OF this] show ?case by (simp add: good_fun_def)
next
  case (UnionValidator vs)
  have "\<forall>f \<in> set (map (validate L) vs). good_fun f"
    using UnionValidator by simp
  from good_Union [OF this] show ?case by (simp add: good_fun_def)
next
  case (OptionalValidator v)
  from good_Optional [OF this] show ?case by (simp add: good_fun_def)
next
  case (EmailValidator ae)
  then show ?case using good_Email by (simp add: good_fun_def)
next
  case (PasswordValidator x1 x2 x3 x4 x5)
  then show ?case using good_Password by (simp add: good_fun_def)
next
  case (PhoneNumberValidator x1 x2)
  then show ?case using good_Phone by (simp add: good_fun_def)
next
  case (URLValidator x1 x2)
  then show ?case using good_URL by (simp add: good_fun_def)
next
  case (CustomValidator fn msg)
  then show ?case using good_Custom by (simp add: good_fun_def)
next
  case (JSONSchemaValidator v)
  then show ?case by (simp add: good_fun_def)
qed

subsection \<open>Results read from the store\<close>

text \<open>
  By locality every run is the run on the empty store, moved behind the store it started
  from; the addresses of its result lie in the part it allocated.
\<close>

lemma validate_from_empty: "validate L v x h = pre h (validate L v x [])"
  using local_funD [OF local_validate, of L v x h "[]"] by simp




lemma validate_any_store:
  assumes "validate L v x [] = Inr (r0, h0)"
  shows "validate L v x k = Inr (shift (length k) r0, k @ h0)"
  using validate_from_empty [of L v x k] assms by simp



subsection \<open>Validity and the error sequence\<close>

text \<open>
  C3. Every ValidationResult that the \<^verbatim>\<open>validate\<close> of a validator returns is valid if
  and only if its sequence of errors is empty.
\<close>

theorem result_valid_iff_no_errors:
  "validate L v value h = Inr (result, h') \<Longrightarrow> is_valid result \<longleftrightarrow> errors result = []"
  using good_funD [OF good_validate, of L v "value" h result h'] by (simp add: good_state_pair)

theorem result_valid_iff_no_errors_witness:
  "validate example_lib (DictValidator [(''name'', StringValidator 1 None None None)] [''name''] False)
       (VDict []) [] =
     Inr (\<lparr>is_valid = False, errors = [0]\<rparr>,
          [\<lparr>message = ''Missing required fields: name'', field = None, details = []\<rparr>]) \<and>
   (is_valid \<lparr>is_valid = False, errors = [0::nat]\<rparr> \<longleftrightarrow> errors \<lparr>is_valid = False, errors = [0::nat]\<rparr> = [])"
  using result_valid_iff_no_errors
    [of example_lib "DictValidator [(''name'', StringValidator 1 None None None)] [''name''] False"
        "VDict []" "[]" "\<lparr>is_valid = False, errors = [0]\<rparr>"
        "[\<lparr>message = ''Missing required fields: name'', field = None, details = []\<rparr>]"]
  by (simp add: DictValidator_validate_def new_result_def add_error_def new_error_def)

subsection \<open>Validating twice\<close>



subsection \<open>What a validation changes in the store\<close>




subsection \<open>Exceptions\<close>


























subsection \<open>Primitive validators on a value of the wrong type\<close>




subsection \<open>UnionValidator\<close>

lemma rejectsE:
  assumes "rejects L c x"
  obtains r0 h0 where "validate L c x [] = Inr (r0, h0)" "\<not> is_valid r0"
    "\<forall>a \<in> set (errors r0). a < length h0"
    "failure_messages L c x = map message (read h0 r0)"
proof (cases "validate L c x []")
  case (Inl e)
  then show ?thesis using assms by (simp add: rejects_def)
next
  case (Inr t)
  obtain r0 h0 where t: "t = (r0, h0)" by (cases t)
  have e: "validate L c x [] = Inr (r0, h0)" using Inr t by simp
  have g: "good_state 0 (r0, h0)" using good_funD [OF good_validate e] by simp
  have "\<not> is_valid r0" using assms e by (simp add: rejects_def)
  moreover have "\<forall>a \<in> set (errors r0). a < length h0" using g by (simp add: good_state_pair)
  moreover have "failure_messages L c x = map message (read h0 r0)"
    using e by (simp add: failure_messages_def)
  ultimately show ?thesis using that e by blast
qed

lemma union_loop_all_reject:
  assumes "\<forall>c \<in> set vs. rejects L c x" "\<forall>a \<in> set ae. a < length h"
  shows "\<exists>h'. union_loop (map (validate L) vs) x ae h =
           Inr (\<lparr>is_valid = False, errors = [length h']\<rparr>,
                h' @ [aggregate_error (map (\<lambda>a. message (h ! a)) ae
                        @ concat (map (\<lambda>c. failure_messages L c x) vs))])"
  using assms
proof (induction vs arbitrary: ae h)
  case Nil
  then show ?case
    by (simp add: add_new_def alloc_def add_error_def new_result_def new_error_def aggregate_error_def)
next
  case (Cons c vs)
  from Cons.prems(1) have "rejects L c x" by simp
  then obtain r0 h0 where e: "validate L c x [] = Inr (r0, h0)" and nv: "\<not> is_valid r0"
    and b: "\<forall>a \<in> set (errors r0). a < length h0"
    and fm: "failure_messages L c x = map message (read h0 r0)"
    by (rule rejectsE)
  have run: "validate L c x h = Inr (shift (length h) r0, h @ h0)"
    by (rule validate_any_store [OF e])
  let ?ae = "ae @ map ((+) (length h)) (errors r0)"
  have b': "\<forall>a \<in> set ?ae. a < length (h @ h0)" using Cons.prems(2) b by auto
  have rest: "\<forall>c \<in> set vs. rejects L c x" using Cons.prems(1) by simp
  have m1: "map (\<lambda>a. message ((h @ h0) ! a)) ae = map (\<lambda>a. message (h ! a)) ae"
    using Cons.prems(2) by (simp add: nth_append)
  have m2: "map (\<lambda>a. message ((h @ h0) ! a)) (map ((+) (length h)) (errors r0)) = map message (read h0 r0)"
    by (simp add: read_def o_def)
  have msgs: "map (\<lambda>a. message ((h @ h0) ! a)) ?ae
      = map (\<lambda>a. message (h ! a)) ae @ failure_messages L c x"
    using m1 m2 fm by simp
  from Cons.IH [OF rest b'] obtain h' where
    "union_loop (map (validate L) vs) x ?ae (h @ h0) =
       Inr (\<lparr>is_valid = False, errors = [length h']\<rparr>,
            h' @ [aggregate_error (map (\<lambda>a. message ((h @ h0) ! a)) ?ae
                    @ concat (map (\<lambda>c. failure_messages L c x) vs))])"
    by blast
  note ih = this [unfolded msgs]
  then have "union_loop (map (validate L) (c # vs)) x ae h =
       Inr (\<lparr>is_valid = False, errors = [length h']\<rparr>,
            h' @ [aggregate_error (map (\<lambda>a. message (h ! a)) ae
                    @ concat (map (\<lambda>c. failure_messages L c x) (c # vs)))])"
    using run nv by simp
  then show ?case by blast
qed

lemma acceptsE:
  assumes "accepts L c x"
  obtains r0 h0 where "validate L c x [] = Inr (r0, h0)" "is_valid r0" "errors r0 = []"
proof (cases "validate L c x []")
  case (Inl e)
  then show ?thesis using assms by (simp add: accepts_def)
next
  case (Inr t)
  obtain r0 h0 where t: "t = (r0, h0)" by (cases t)
  have e: "validate L c x [] = Inr (r0, h0)" using Inr t by simp
  have g: "good_state 0 (r0, h0)" using good_funD [OF good_validate e] by simp
  have v: "is_valid r0" using assms e by (simp add: accepts_def)
  then have "errors r0 = []" using g by (simp add: good_state_pair)
  then show ?thesis using that e v by blast
qed

lemma union_loop_first_accept:
  assumes "\<forall>c' \<in> set before. rejects L c' x" "accepts L c x"
  shows "\<exists>hk r h'. union_loop (map (validate L) (before @ c # rest)) x ae h = Inr (r, h') \<and>
           validate L c x hk = Inr (r, h') \<and> is_valid r \<and> errors r = []"
  using assms(1)
proof (induction before arbitrary: ae h)
  case Nil
  from assms(2) obtain r0 h0 where e: "validate L c x [] = Inr (r0, h0)" and v: "is_valid r0"
    and n: "errors r0 = []"
    by (rule acceptsE)
  have run: "validate L c x h = Inr (shift (length h) r0, h @ h0)"
    by (rule validate_any_store [OF e])
  then have "union_loop (map (validate L) ([] @ c # rest)) x ae h = Inr (shift (length h) r0, h @ h0)"
    using v by simp
  then show ?case using run v n by (intro exI [of _ h]) simp
next
  case (Cons b before)
  from Cons.prems have "rejects L b x" by simp
  then obtain r0 h0 where e: "validate L b x [] = Inr (r0, h0)" and nv: "\<not> is_valid r0"
    by (rule rejectsE)
  have run: "validate L b x h = Inr (shift (length h) r0, h @ h0)"
    by (rule validate_any_store [OF e])
  have "\<forall>c' \<in> set before. rejects L c' x" using Cons.prems by simp
  from Cons.IH [OF this, of "ae @ errors (shift (length h) r0)" "h @ h0"]
  show ?case using run nv by simp
qed

text \<open>
  C5, as amended. For a UnionValidator over the candidates \<open>vs\<close>: when a candidate accepts
  the value and every candidate before it rejects it, the result is valid, has no error,
  and is the very result that this candidate returned; when the list is not empty and every
  candidate rejects the value, the result is invalid and holds exactly one error, the
  aggregate error, whose details list the messages of all errors of all candidates, in
  order.
\<close>

theorem union_first_success_or_aggregate:
  "(vs = before @ c # rest \<and> (\<forall>c' \<in> set before. rejects L c' value) \<and> accepts L c value \<longrightarrow>
      (\<exists>hk result h'. validate L (UnionValidator vs) value h = Inr (result, h') \<and>
         validate L c value hk = Inr (result, h') \<and> is_valid result \<and> errors result = [])) \<and>
   (vs \<noteq> [] \<and> (\<forall>c \<in> set vs. rejects L c value) \<longrightarrow>
      (\<exists>h'. validate L (UnionValidator vs) value h =
         Inr (\<lparr>is_valid = False, errors = [length h']\<rparr>,
              h' @ [aggregate_error (concat (map (\<lambda>c. failure_messages L c value) vs))])))"
proof (intro conjI impI)
  assume a: "vs = before @ c # rest \<and> (\<forall>c' \<in> set before. rejects L c' value) \<and> accepts L c value"
  then have "vs \<noteq> []" by auto
  then show "\<exists>hk result h'. validate L (UnionValidator vs) value h = Inr (result, h') \<and>
         validate L c value hk = Inr (result, h') \<and> is_valid result \<and> errors result = []"
    using union_loop_first_accept [of before L "value" c rest "[]" h] a
    by (simp add: UnionValidator_validate_def)
next
  assume a: "vs \<noteq> [] \<and> (\<forall>c \<in> set vs. rejects L c value)"
  then show "\<exists>h'. validate L (UnionValidator vs) value h =
         Inr (\<lparr>is_valid = False, errors = [length h']\<rparr>,
              h' @ [aggregate_error (concat (map (\<lambda>c. failure_messages L c value) vs))])"
    using union_loop_all_reject [of vs L "value" "[]" h]
    by (simp add: UnionValidator_validate_def)
qed

theorem union_first_success_or_aggregate_witness:
  "rejects example_lib (StringValidator 0 None None None) (VInt 5) \<and>
   accepts example_lib (NumberValidator None None False True True) (VInt 5) \<and>
   validate example_lib
       (UnionValidator [StringValidator 0 None None None, NumberValidator None None False True True])
       (VInt 5) [] =
     Inr (\<lparr>is_valid = True, errors = []\<rparr>,
          [\<lparr>message = ''Expected string but got int'', field = None, details = []\<rparr>]) \<and>
   rejects example_lib BooleanValidator (VInt 5) \<and>
   validate example_lib (UnionValidator [StringValidator 0 None None None, BooleanValidator]) (VInt 5) [] =
     Inr (\<lparr>is_valid = False, errors = [2]\<rparr>,
          [\<lparr>message = ''Expected string but got int'', field = None, details = []\<rparr>,
           \<lparr>message = ''Expected boolean but got int'', field = None, details = []\<rparr>,
           \<lparr>message = ''Value did not match any of the expected types'', field = None,
            details = [(''errors'', [''Expected string but got int'', ''Expected boolean but got int''])]\<rparr>])"
  using union_first_success_or_aggregate
    [of "[StringValidator 0 None None None, NumberValidator None None False True True]"
        "[StringValidator 0 None None None]" "NumberValidator None None False True True" "[]"
        example_lib "VInt 5" "[]"]
    union_first_success_or_aggregate
    [of "[StringValidator 0 None None None, BooleanValidator]"
        "[StringValidator 0 None None None]" "BooleanValidator" "[]"
        example_lib "VInt 5" "[]"]
  by (simp add: rejects_def accepts_def StringValidator_validate_def NumberValidator_validate_def
        BooleanValidator_validate_def UnionValidator_validate_def new_result_def add_error_def
        new_error_def add_new_def alloc_def)

text \<open>
  The claim as worded fails when a candidate before the accepting one raises: the second
  candidate accepts the dict \<^verbatim>\<open>{1: 2}\<close>, the first raises TypeError on it, and so does
  the UnionValidator.
\<close>

theorem union_raises_before_accepting_candidate:
  "accepts example_lib (DictValidator [] [] True) (VDict [(VInt 1, VInt 2)]) \<and>
   validate example_lib (UnionValidator [DictValidator [] [] False, DictValidator [] [] True])
       (VDict [(VInt 1, VInt 2)]) [] = Inl TypeError"
  by (simp add: accepts_def DictValidator_validate_def UnionValidator_validate_def join_vals_def
        new_result_def)

subsection \<open>NumberValidator: integer-only and booleans\<close>

text \<open>
  C9, as amended. A NumberValidator with \<^verbatim>\<open>integer_only\<close> set rejects every value that
  is not an instance of int, whatever its numeric value: the result is invalid and holds
  exactly the one error "Expected integer but got T". In particular 3.0 is rejected. The
  test is \<^verbatim>\<open>isinstance(value, int)\<close>, and bool is a subclass of int: the values whose
  type is not int and that are let through are \<open>True\<close> and \<open>False\<close>.
\<close>

theorem integer_only_rejects_non_integers:
  "\<not> isinstance_int value \<Longrightarrow>
   validate L (NumberValidator lo hi True an az) value h =
     Inr (\<lparr>is_valid = False, errors = [length h]\<rparr>,
          h @ [new_error (''Expected integer but got '' @ type_name value) None None])"
  by (simp add: NumberValidator_validate_def new_result_def add_error_def)

theorem integer_only_rejects_non_integers_witness:
  "\<not> isinstance_int (VFloat 3) \<and>
   validate example_lib (NumberValidator None None True True True) (VFloat 3) [] =
     Inr (\<lparr>is_valid = False, errors = [0]\<rparr>,
          [\<lparr>message = ''Expected integer but got float'', field = None, details = []\<rparr>])"
  using integer_only_rejects_non_integers [of "VFloat 3" example_lib None None True True "[]"]
  by (simp add: new_error_def)

text \<open>
  The claim as worded fails on a boolean: the runtime type of \<open>True\<close> is bool, not int,
  and the validator with \<^verbatim>\<open>integer_only\<close> set and no other constraint returns a valid
  result with no error.
\<close>

theorem integer_only_lets_True_through:
  "type_name (VBool True) = ''bool'' \<and> type_name (VBool True) \<noteq> type_name (VInt 1) \<and>
   validate example_lib (NumberValidator None None True True True) (VBool True) [] =
     Inr (\<lparr>is_valid = True, errors = []\<rparr>, [])"
  by (simp add: NumberValidator_validate_def new_result_def)

text \<open>
  C10. A NumberValidator with \<^verbatim>\<open>integer_only\<close> set accepts \<open>True\<close> and \<open>False\<close>:
  a boolean passes the integer type check and, when the bounds admit its value (1 or 0)
  and zero is allowed or the boolean is \<open>True\<close>, the result is valid.
\<close>

theorem integer_only_accepts_booleans:
  "(\<forall>m. lo = Some m \<longrightarrow> num_value (num_val m) \<le> num_value (VBool b)) \<Longrightarrow>
   (\<forall>m. hi = Some m \<longrightarrow> num_value (VBool b) \<le> num_value (num_val m)) \<Longrightarrow>
   az \<or> b \<Longrightarrow>
   validate L (NumberValidator lo hi True an az) (VBool b) h = Inr (\<lparr>is_valid = True, errors = []\<rparr>, h)"
  by (cases lo; cases hi) (auto simp: NumberValidator_validate_def new_result_def not_less)

theorem integer_only_accepts_booleans_witness:
  "validate example_lib (NumberValidator (Some (NInt 0)) (Some (NInt 1)) True False True) (VBool True) []
     = Inr (\<lparr>is_valid = True, errors = []\<rparr>, []) \<and>
   validate example_lib (NumberValidator (Some (NInt 0)) (Some (NInt 1)) True False True) (VBool False) []
     = Inr (\<lparr>is_valid = True, errors = []\<rparr>, [])"
  using integer_only_accepts_booleans [of "Some (NInt 0)" True "Some (NInt 1)" True example_lib False "[]"]
        integer_only_accepts_booleans [of "Some (NInt 0)" False "Some (NInt 1)" True example_lib False "[]"]
  by simp

end
